theory Spec2Isabelle
  imports Main "HOL-Library.Char_ord" "HOL-Library.List_Lexorder"
begin

section \<open>The labextension entry points of jupyterlab/labextensions.py\<close>

text \<open>
  The module is a command-line front end: each subcommand class has a \<open>start\<close> method
  that calls functions of the external module \<open>jupyterlab.commands\<close> in some order.
  Those functions are parameters of the model; what is verified is the sequencing,
  the condition for building and the rollback of the \<open>start\<close> methods.
\<close>

subsection \<open>Exceptions\<close>

text \<open>
  Python's exception hierarchy as far as the module depends on it: \<open>except Exception\<close>
  catches instances of \<open>Exception\<close> only, not \<open>SystemExit\<close> or \<open>KeyboardInterrupt\<close>,
  which derive from \<open>BaseException\<close> directly. \<open>sys.exit(arg)\<close> raises
  \<open>SystemExit(arg)\<close>.
\<close>

datatype exit_arg = ExitNone | ExitInt int | ExitStr string

datatype exn = Exception string | SystemExit exit_arg | KeyboardInterrupt

fun is_Exception :: "exn \<Rightarrow> bool" where
  "is_Exception (Exception m) = True"
| "is_Exception (SystemExit a) = False"
| "is_Exception KeyboardInterrupt = False"

text \<open>
  What the interpreter does with a \<open>SystemExit\<close> that nobody catches: \<open>None\<close> gives exit
  status 0, an integer is the status, any other object is printed to standard error
  and the status is 1.
\<close>

fun exit_status :: "exit_arg \<Rightarrow> int" where
  "exit_status ExitNone = 0"
| "exit_status (ExitInt n) = n"
| "exit_status (ExitStr m) = 1"

fun exit_message :: "exit_arg \<Rightarrow> string" where
  "exit_message ExitNone = []"
| "exit_message (ExitInt n) = []"
| "exit_message (ExitStr m) = m"

subsection \<open>The collaborator calls\<close>

text \<open>
  The functions imported from \<open>.commands\<close>. The six that take an identifier are called as
  \<open>f(arg, self.app_dir, logger=self.log)\<close>; \<open>build\<close> is called as
  \<open>build(self.app_dir, clean_staging=self.should_clean, logger=self.log)\<close> and
  \<open>list_extensions\<close> as \<open>list_extensions(self.app_dir, logger=self.log)\<close>.
\<close>

datatype collaborator =
    install_extension | uninstall_extension
  | enable_extension | disable_extension
  | link_package | unlink_package

datatype call =
    Call collaborator string string
  | build string bool
  | list_extensions string

fun is_build :: "call \<Rightarrow> bool" where
  "is_build (build d c) = True"
| "is_build (Call f x d) = False"
| "is_build (list_extensions d) = False"

fun is_call_of :: "collaborator \<Rightarrow> call \<Rightarrow> bool" where
  "is_call_of g (Call f x d) = (f = g)"
| "is_call_of g (build d c) = False"
| "is_call_of g (list_extensions d) = False"

text \<open>The values a collaborator returns, and Python's truth test on them.\<close>

datatype pyval = PyNone | PyBool bool

fun truthy :: "pyval \<Rightarrow> bool" where
  "truthy PyNone = False"
| "truthy (PyBool b) = b"

text \<open>Python's \<open>any\<close> on a list that has already been built.\<close>

fun any_py :: "pyval list \<Rightarrow> bool" where
  "any_py [] = False"
| "any_py (v # vs) = (if truthy v then True else any_py vs)"

subsection \<open>State\<close>

text \<open>
  The traits of \<open>BaseExtensionApp\<close> that the \<open>start\<close> methods read, with the positional
  arguments \<open>extra_args\<close> of the application.
\<close>

record app =
  extra_args :: "string list"
  app_dir :: string
  should_build :: bool
  should_clean :: bool

text \<open>
  An event is a call together with its outcome: \<open>Inl e\<close> when it raised \<open>e\<close>,
  \<open>Inr v\<close> when it returned \<open>v\<close>. The state is the application object, the world the
  collaborators act on (file system, registry), and the events so far.
\<close>

type_synonym event = "call \<times> (exn + pyval)"

record 'w state =
  self :: app
  world :: 'w
  trace :: "event list"

text \<open>
  The environment: how each collaborator call acts on the world, and the current
  working directory that \<open>os.getcwd()\<close> returns.
\<close>

record 'w env =
  perform :: "call \<Rightarrow> 'w \<Rightarrow> (exn + pyval) \<times> 'w"
  getcwd :: "'w \<Rightarrow> string"

definition invoke :: "'w env \<Rightarrow> call \<Rightarrow> 'w state \<Rightarrow> (exn + pyval) \<times> 'w state" where
  "invoke E c s =
     (case perform E c (world s) of
        (r, w') \<Rightarrow> (r, s\<lparr>world := w', trace := trace s @ [(c, r)]\<rparr>))"

text \<open>The events of one invocation: those added to the trace between two states.\<close>

definition new_events :: "'w state \<Rightarrow> 'w state \<Rightarrow> event list" where
  "new_events s s' = drop (length (trace s)) (trace s')"

definition calls_made :: "'w state \<Rightarrow> 'w state \<Rightarrow> call list" where
  "calls_made s s' = map fst (new_events s s')"

subsection \<open>Comprehensions and loops over side-effecting calls\<close>

text \<open>
  \<open>[f(arg) for arg in xs]\<close> evaluates the calls in order and builds the whole list;
  the first call that raises ends the evaluation. \<open>for arg in xs: f(arg)\<close> does the
  same and keeps no value.
\<close>

fun list_comp :: "('a \<Rightarrow> 's \<Rightarrow> (exn + 'b) \<times> 's) \<Rightarrow> 'a list \<Rightarrow> 's \<Rightarrow> (exn + 'b list) \<times> 's" where
  "list_comp f [] s = (Inr [], s)"
| "list_comp f (x # xs) s =
     (case f x s of
        (Inl e, s1) \<Rightarrow> (Inl e, s1)
      | (Inr v, s1) \<Rightarrow>
          (case list_comp f xs s1 of
             (Inl e, s2) \<Rightarrow> (Inl e, s2)
           | (Inr vs, s2) \<Rightarrow> (Inr (v # vs), s2)))"

fun for_loop :: "('a \<Rightarrow> 's \<Rightarrow> (exn + 'b) \<times> 's) \<Rightarrow> 'a list \<Rightarrow> 's \<Rightarrow> (exn + unit) \<times> 's" where
  "for_loop f [] s = (Inr (), s)"
| "for_loop f (x # xs) s =
     (case f x s of
        (Inl e, s1) \<Rightarrow> (Inl e, s1)
      | (Inr v, s1) \<Rightarrow> for_loop f xs s1)"

subsection \<open>The subcommands\<close>

text \<open>\<open>self.extra_args = self.extra_args or [os.getcwd()]\<close>\<close>

definition default_extra_args :: "'w env \<Rightarrow> 'w state \<Rightarrow> 'w state" where
  "default_extra_args E s =
     s\<lparr>self := (self s)\<lparr>extra_args :=
         (if extra_args (self s) = [] then [getcwd E (world s)] else extra_args (self s))\<rparr>\<rparr>"

definition InstallLabExtensionApp_start :: "'w env \<Rightarrow> 'w state \<Rightarrow> (exn + unit) \<times> 'w state" where
  "InstallLabExtensionApp_start E s =
     (let s0 = default_extra_args E s in
      case list_comp (\<lambda>arg. invoke E (Call install_extension arg (app_dir (self s0))))
             (extra_args (self s0)) s0 of
        (Inl e, s1) \<Rightarrow> (Inl e, s1)
      | (Inr vs, s1) \<Rightarrow>
          if should_build (self s1) then
            (case invoke E (build (app_dir (self s1)) (should_clean (self s1))) s1 of
               (Inr v, s2) \<Rightarrow> (Inr (), s2)
             | (Inl e, s2) \<Rightarrow>
                 if is_Exception e then
                   (case for_loop (\<lambda>arg. invoke E (Call uninstall_extension arg (app_dir (self s2))))
                           (extra_args (self s2)) s2 of
                      (Inl e', s3) \<Rightarrow> (Inl e', s3)
                    | (Inr u, s3) \<Rightarrow> (Inl e, s3))
                 else (Inl e, s2))
          else (Inr (), s1))"

definition LinkLabExtensionApp_start :: "'w env \<Rightarrow> 'w state \<Rightarrow> (exn + unit) \<times> 'w state" where
  "LinkLabExtensionApp_start E s =
     (let s0 = default_extra_args E s in
      case list_comp (\<lambda>arg. invoke E (Call link_package arg (app_dir (self s0))))
             (extra_args (self s0)) s0 of
        (Inl e, s1) \<Rightarrow> (Inl e, s1)
      | (Inr vs, s1) \<Rightarrow>
          if should_build (self s1) then
            (case invoke E (build (app_dir (self s1)) (should_clean (self s1))) s1 of
               (Inr v, s2) \<Rightarrow> (Inr (), s2)
             | (Inl e, s2) \<Rightarrow>
                 if is_Exception e then
                   (case for_loop (\<lambda>arg. invoke E (Call unlink_package arg (app_dir (self s2))))
                           (extra_args (self s2)) s2 of
                      (Inl e', s3) \<Rightarrow> (Inl e', s3)
                    | (Inr u, s3) \<Rightarrow> (Inl e, s3))
                 else (Inl e, s2))
          else (Inr (), s1))"

definition UnlinkLabExtensionApp_start :: "'w env \<Rightarrow> 'w state \<Rightarrow> (exn + unit) \<times> 'w state" where
  "UnlinkLabExtensionApp_start E s =
     (let s0 = default_extra_args E s in
      case list_comp (\<lambda>arg. invoke E (Call unlink_package arg (app_dir (self s0))))
             (extra_args (self s0)) s0 of
        (Inl e, s1) \<Rightarrow> (Inl e, s1)
      | (Inr vs, s1) \<Rightarrow>
          let ans = any_py vs in
          if ans \<and> should_build (self s1) then
            (case invoke E (build (app_dir (self s1)) (should_clean (self s1))) s1 of
               (Inl e, s2) \<Rightarrow> (Inl e, s2)
             | (Inr v, s2) \<Rightarrow> (Inr (), s2))
          else (Inr (), s1))"

definition UninstallLabExtensionApp_start :: "'w env \<Rightarrow> 'w state \<Rightarrow> (exn + unit) \<times> 'w state" where
  "UninstallLabExtensionApp_start E s =
     (let s0 = default_extra_args E s in
      case list_comp (\<lambda>arg. invoke E (Call uninstall_extension arg (app_dir (self s0))))
             (extra_args (self s0)) s0 of
        (Inl e, s1) \<Rightarrow> (Inl e, s1)
      | (Inr vs, s1) \<Rightarrow>
          let ans = any_py vs in
          if ans \<and> should_build (self s1) then
            (case invoke E (build (app_dir (self s1)) (should_clean (self s1))) s1 of
               (Inl e, s2) \<Rightarrow> (Inl e, s2)
             | (Inr v, s2) \<Rightarrow> (Inr (), s2))
          else (Inr (), s1))"

definition ListLabExtensionsApp_start :: "'w env \<Rightarrow> 'w state \<Rightarrow> (exn + unit) \<times> 'w state" where
  "ListLabExtensionsApp_start E s =
     (case invoke E (list_extensions (app_dir (self s))) s of
        (Inl e, s1) \<Rightarrow> (Inl e, s1)
      | (Inr v, s1) \<Rightarrow> (Inr (), s1))"

definition EnableLabExtensionsApp_start :: "'w env \<Rightarrow> 'w state \<Rightarrow> (exn + unit) \<times> 'w state" where
  "EnableLabExtensionsApp_start E s =
     (case list_comp (\<lambda>arg. invoke E (Call enable_extension arg (app_dir (self s))))
             (extra_args (self s)) s of
        (Inl e, s1) \<Rightarrow> (Inl e, s1)
      | (Inr vs, s1) \<Rightarrow> (Inr (), s1))"

definition DisableLabExtensionsApp_start :: "'w env \<Rightarrow> 'w state \<Rightarrow> (exn + unit) \<times> 'w state" where
  "DisableLabExtensionsApp_start E s =
     (case list_comp (\<lambda>arg. invoke E (Call disable_extension arg (app_dir (self s))))
             (extra_args (self s)) s of
        (Inl e, s1) \<Rightarrow> (Inl e, s1)
      | (Inr vs, s1) \<Rightarrow> (Inr (), s1))"

subsection \<open>The entry point\<close>

datatype subapp =
    InstallLabExtensionApp | UninstallLabExtensionApp | ListLabExtensionsApp
  | LinkLabExtensionApp | UnlinkLabExtensionApp
  | EnableLabExtensionsApp | DisableLabExtensionsApp

text \<open>The \<open>subcommands\<close> dictionary: name, class and help text, in the order written.\<close>

definition subcommands :: "(string \<times> subapp \<times> string) list" where
  "subcommands =
     [(''install'', InstallLabExtensionApp, ''Install labextension(s)''),
      (''uninstall'', UninstallLabExtensionApp, ''Uninstall labextension(s)''),
      (''list'', ListLabExtensionsApp, ''List labextensions''),
      (''link'', LinkLabExtensionApp, ''Link labextension(s)''),
      (''unlink'', UnlinkLabExtensionApp, ''Unlink labextension(s)''),
      (''enable'', EnableLabExtensionsApp, ''Enable labextension(s)''),
      (''disable'', DisableLabExtensionsApp, ''Disable labextension(s)'')]"

text \<open>
  \<open>sorted\<close> on the keys of a dictionary of strings: ascending in the lexicographic order
  of the character codes. \<open>sep.join(xs)\<close> puts \<open>sep\<close> between the elements.
\<close>

definition sorted_py :: "string list \<Rightarrow> string list" where
  "sorted_py xs = sort xs"

fun join :: "string \<Rightarrow> string list \<Rightarrow> string" where
  "join sep [] = []"
| "join sep [x] = x"
| "join sep (x # y # ys) = x @ sep @ join sep (y # ys)"

text \<open>
  \<open>LabExtensionApp.start\<close> first runs the inherited \<open>JupyterApp.start\<close>, which belongs to
  \<open>jupyter_core\<close> and is a parameter here. When a subcommand was given it runs it and
  raises \<open>NoStart\<close>; when it returns, no subcommand was run, and the method leaves
  through \<open>sys.exit\<close> with the message.
\<close>

definition LabExtensionApp_start ::
    "('w state \<Rightarrow> (exn + unit) \<times> 'w state) \<Rightarrow> 'w state \<Rightarrow> (exn + unit) \<times> 'w state" where
  "LabExtensionApp_start super_start s =
     (case super_start s of
        (Inl e, s1) \<Rightarrow> (Inl e, s1)
      | (Inr u, s1) \<Rightarrow>
          let subcmds = join '', '' (sorted_py (map fst subcommands)) in
          (Inl (SystemExit (ExitStr (''Please supply at least one subcommand: '' @ subcmds))), s1))"

subsection \<open>Vocabulary for the properties\<close>

text \<open>
  The identifiers an invocation of install, link, unlink or uninstall works on; the events
  of calls that returned; whether an event raised, and whether it returned a true value.
\<close>

definition identifiers :: "'w env \<Rightarrow> 'w state \<Rightarrow> string list" where
  "identifiers E s = (if extra_args (self s) = [] then [getcwd E (world s)] else extra_args (self s))"

definition returned :: "('a \<Rightarrow> call) \<Rightarrow> 'a list \<Rightarrow> pyval list \<Rightarrow> event list" where
  "returned C xs vs = map (\<lambda>(x, v). (C x, Inr v)) (zip xs vs)"

fun raised :: "event \<Rightarrow> bool" where
  "raised (c, Inl e) = True"
| "raised (c, Inr v) = False"

fun reported_change :: "event \<Rightarrow> bool" where
  "reported_change (c, Inl e) = False"
| "reported_change (c, Inr v) = truthy v"

subsection \<open>The shapes shared by the \<open>start\<close> methods\<close>

text \<open>
  Install and link differ only in the two collaborators they call, unlink and uninstall
  only in one, and so do enable and disable. The three shapes below take the collaborators
  as arguments; each method is shown equal to its shape, and the shapes carry the proofs.
\<close>

definition rollback_start ::
    "'w env \<Rightarrow> collaborator \<Rightarrow> collaborator \<Rightarrow> 'w state \<Rightarrow> (exn + unit) \<times> 'w state" where
  "rollback_start E f g s =
     (let s0 = default_extra_args E s in
      case list_comp (\<lambda>arg. invoke E (Call f arg (app_dir (self s0))))
             (extra_args (self s0)) s0 of
        (Inl e, s1) \<Rightarrow> (Inl e, s1)
      | (Inr vs, s1) \<Rightarrow>
          if should_build (self s1) then
            (case invoke E (build (app_dir (self s1)) (should_clean (self s1))) s1 of
               (Inr v, s2) \<Rightarrow> (Inr (), s2)
             | (Inl e, s2) \<Rightarrow>
                 if is_Exception e then
                   (case for_loop (\<lambda>arg. invoke E (Call g arg (app_dir (self s2))))
                           (extra_args (self s2)) s2 of
                      (Inl e', s3) \<Rightarrow> (Inl e', s3)
                    | (Inr u, s3) \<Rightarrow> (Inl e, s3))
                 else (Inl e, s2))
          else (Inr (), s1))"

definition build_if_changed_start :: "'w env \<Rightarrow> collaborator \<Rightarrow> 'w state \<Rightarrow> (exn + unit) \<times> 'w state" where
  "build_if_changed_start E f s =
     (let s0 = default_extra_args E s in
      case list_comp (\<lambda>arg. invoke E (Call f arg (app_dir (self s0))))
             (extra_args (self s0)) s0 of
        (Inl e, s1) \<Rightarrow> (Inl e, s1)
      | (Inr vs, s1) \<Rightarrow>
          let ans = any_py vs in
          if ans \<and> should_build (self s1) then
            (case invoke E (build (app_dir (self s1)) (should_clean (self s1))) s1 of
               (Inl e, s2) \<Rightarrow> (Inl e, s2)
             | (Inr v, s2) \<Rightarrow> (Inr (), s2))
          else (Inr (), s1))"

definition plain_start :: "'w env \<Rightarrow> collaborator \<Rightarrow> 'w state \<Rightarrow> (exn + unit) \<times> 'w state" where
  "plain_start E f s =
     (case list_comp (\<lambda>arg. invoke E (Call f arg (app_dir (self s))))
             (extra_args (self s)) s of
        (Inl e, s1) \<Rightarrow> (Inl e, s1)
      | (Inr vs, s1) \<Rightarrow> (Inr (), s1))"

subsection \<open>A concrete environment\<close>

text \<open>
  An environment for running the methods on examples: install and link always succeed, the
  identifier \<open>missing\<close> makes every other collaborator raise, only \<open>changed\<close> reports a
  change, and the build always fails. The world counts the calls.
\<close>

definition demo_perform :: "call \<Rightarrow> nat \<Rightarrow> (exn + pyval) \<times> nat" where
  "demo_perform c w =
     (case c of
        Call f x d \<Rightarrow>
          if f = install_extension \<or> f = link_package then (Inr PyNone, Suc w)
          else if x = ''missing'' then (Inl (Exception ''not found''), Suc w)
          else (Inr (PyBool (x = ''changed'')), Suc w)
      | build d cl \<Rightarrow> (Inl (Exception ''build failed''), Suc w)
      | list_extensions d \<Rightarrow> (Inr PyNone, Suc w))"

definition demo_env :: "nat env" where
  "demo_env = \<lparr>perform = demo_perform, getcwd = (\<lambda>w. ''/home/user/ext'')\<rparr>"

definition demo_state :: "string list \<Rightarrow> bool \<Rightarrow> nat state" where
  "demo_state args b =
     \<lparr>self = \<lparr>extra_args = args, app_dir = ''/opt/lab'', should_build = b, should_clean = False\<rparr>,
      world = 0, trace = []\<rparr>"

section \<open>Properties\<close>

subsection \<open>Each method has its shape\<close>

lemma Install_shape: "InstallLabExtensionApp_start E s = rollback_start E install_extension uninstall_extension s"
  by (simp add: InstallLabExtensionApp_start_def rollback_start_def)
lemma Link_shape: "LinkLabExtensionApp_start E s = rollback_start E link_package unlink_package s"
  by (simp add: LinkLabExtensionApp_start_def rollback_start_def)
lemma Unlink_shape: "UnlinkLabExtensionApp_start E s = build_if_changed_start E unlink_package s"
  by (simp add: UnlinkLabExtensionApp_start_def build_if_changed_start_def)
lemma Uninstall_shape: "UninstallLabExtensionApp_start E s = build_if_changed_start E uninstall_extension s"
  by (simp add: UninstallLabExtensionApp_start_def build_if_changed_start_def)
lemma Enable_shape: "EnableLabExtensionsApp_start E s = plain_start E enable_extension s"
  by (simp add: EnableLabExtensionsApp_start_def plain_start_def)
lemma Disable_shape: "DisableLabExtensionsApp_start E s = plain_start E disable_extension s"
  by (simp add: DisableLabExtensionsApp_start_def plain_start_def)

subsection \<open>Traces of comprehensions and loops\<close>

lemma invoke_self: "invoke E c s = (r, s') \<Longrightarrow> self s' = self s \<and> trace s' = trace s @ [(c, r)]"
  by (auto simp: invoke_def split: prod.splits)

lemma new_events_append: "trace s' = trace s @ t \<Longrightarrow> new_events s s' = t"
  by (simp add: new_events_def)

lemma list_comp_invoke:
  "list_comp (\<lambda>arg. invoke E (C arg)) xs s = (r, s') \<Longrightarrow>
     self s' = self s \<and>
     (case r of
        Inr vs \<Rightarrow> length vs = length xs \<and> trace s' = trace s @ returned C xs vs
      | Inl e \<Rightarrow> (\<exists>ys x zs vs. xs = ys @ x # zs \<and> length vs = length ys \<and>
                    trace s' = trace s @ returned C ys vs @ [(C x, Inl e)]))"
proof (induction xs arbitrary: s r s')
  case Nil
  then show ?case by (auto simp: returned_def)
next
  case (Cons a xs)
  obtain r1 s1 where 1: "invoke E (C a) s = (r1, s1)" by force
  note i1 = invoke_self[OF 1]
  show ?case
  proof (cases r1)
    case (Inl e)
    with Cons.prems 1 have "r = Inl e" "s' = s1" by auto
    with i1 Inl show ?thesis
      by (auto simp: returned_def intro!: exI[of _ "[]"])
  next
    case (Inr v)
    obtain r2 s2 where 2: "list_comp (\<lambda>arg. invoke E (C arg)) xs s1 = (r2, s2)" by force
    note ih = Cons.IH[OF 2]
    show ?thesis
    proof (cases r2)
      case (Inl e)
      with Cons.prems 1 2 Inr have r: "r = Inl e" "s' = s2" by auto
      from ih Inl obtain ys x zs vs where
        "xs = ys @ x # zs" "length vs = length ys" "trace s2 = trace s1 @ returned C ys vs @ [(C x, Inl e)]"
        by auto
      then have "a # xs = (a # ys) @ x # zs \<and> length (v # vs) = length (a # ys) \<and>
          trace s2 = trace s @ returned C (a # ys) (v # vs) @ [(C x, Inl e)]"
        using i1 Inr by (simp add: returned_def)
      then show ?thesis using r ih i1 by (simp only: sum.case) blast
    next
      case (Inr vs)
      with Cons.prems 1 2 \<open>r1 = Inr v\<close> have r: "r = Inr (v # vs)" "s' = s2" by auto
      then show ?thesis using ih i1 Inr \<open>r1 = Inr v\<close> by (simp add: returned_def)
    qed
  qed
qed

lemma for_loop_list_comp:
  "for_loop f xs s = (case list_comp f xs s of (Inl e, s') \<Rightarrow> (Inl e, s') | (Inr vs, s') \<Rightarrow> (Inr (), s'))"
  by (induction xs arbitrary: s) (auto split: prod.splits sum.splits)

lemma for_loop_invoke:
  "for_loop (\<lambda>arg. invoke E (C arg)) xs s = (r, s') \<Longrightarrow>
     self s' = self s \<and>
     (case r of
        Inr u \<Rightarrow> (\<exists>vs. length vs = length xs \<and> trace s' = trace s @ returned C xs vs)
      | Inl e \<Rightarrow> (\<exists>ys x zs vs. xs = ys @ x # zs \<and> length vs = length ys \<and>
                    trace s' = trace s @ returned C ys vs @ [(C x, Inl e)]))"
  using list_comp_invoke[of E C xs s]
  by (auto simp: for_loop_list_comp split: prod.splits sum.splits)

lemma default_extra_args_simps:
  "extra_args (self (default_extra_args E s)) = identifiers E s"
  "app_dir (self (default_extra_args E s)) = app_dir (self s)"
  "should_build (self (default_extra_args E s)) = should_build (self s)"
  "should_clean (self (default_extra_args E s)) = should_clean (self s)"
  "trace (default_extra_args E s) = trace s"
  "world (default_extra_args E s) = world s"
  by (simp_all add: default_extra_args_def identifiers_def)

lemma map_fst_returned: "length vs = length xs \<Longrightarrow> map fst (returned C xs vs) = map C xs"
  by (induction vs xs rule: list_induct2) (auto simp: returned_def)

lemma split_at_last:
  assumes "pre @ a # post = ys @ [b]" and "a \<notin> set ys"
  shows "pre = ys \<and> post = [] \<and> a = b"
proof (cases post rule: rev_cases)
  case Nil
  with assms(1) show ?thesis by simp
next
  case (snoc post' p)
  with assms(1) have "pre @ a # post' = ys" by simp
  then have "a \<in> set ys" by auto
  with assms(2) show ?thesis by simp
qed

lemma in_returned: "ev \<in> set (returned C xs vs) \<Longrightarrow> \<exists>x v. x \<in> set xs \<and> v \<in> set vs \<and> ev = (C x, Inr v)"
  unfolding returned_def by (auto dest: set_zip_leftD set_zip_rightD)

lemma any_py_iff: "any_py vs \<longleftrightarrow> (\<exists>v\<in>set vs. truthy v)"
  by (induction vs) auto

lemma returned_change:
  "length vs = length xs \<Longrightarrow> (\<exists>ev\<in>set (returned C xs vs). reported_change ev) \<longleftrightarrow> any_py vs"
  by (induction vs xs rule: list_induct2) (auto simp: returned_def)

lemma returned_not_build: "ev \<in> set (returned (\<lambda>x. Call f x d) xs vs) \<Longrightarrow> \<not> is_build (fst ev) \<and> is_call_of f (fst ev)"
  by (auto dest: in_returned)

lemma filter_calls_same:
  "filter (is_call_of f) (map (\<lambda>x. Call f x d) xs) = map (\<lambda>x. Call f x d) xs"
  by (induction xs) auto

lemma filter_calls_other:
  "g \<noteq> f \<Longrightarrow> filter (is_call_of f) (map (\<lambda>x. Call g x d) xs) = []"
  by (induction xs) auto

subsection \<open>The runs of each shape\<close>

lemma plain_start_cases:
  assumes "plain_start E f s = (r, s')"
  obtains (raised) ys x zs vs e where
      "extra_args (self s) = ys @ x # zs" "length vs = length ys"
      "new_events s s' = returned (\<lambda>x. Call f x (app_dir (self s))) ys vs @ [(Call f x (app_dir (self s)), Inl e)]"
      "r = Inl e"
  | (finished) vs where
      "length vs = length (extra_args (self s))"
      "new_events s s' = returned (\<lambda>x. Call f x (app_dir (self s))) (extra_args (self s)) vs"
      "r = Inr ()"
proof -
  obtain r1 s1 where 1: "list_comp (\<lambda>arg. invoke E (Call f arg (app_dir (self s)))) (extra_args (self s)) s = (r1, s1)"
    by force
  note l = list_comp_invoke[OF 1]
  show thesis
  proof (cases r1)
    case (Inl e)
    with assms 1 have "r = Inl e" "s' = s1" by (auto simp: plain_start_def)
    with l Inl show thesis by (auto intro!: raised dest!: new_events_append)
  next
    case (Inr vs)
    with assms 1 have "r = Inr ()" "s' = s1" by (auto simp: plain_start_def)
    with l Inr show thesis by (auto intro!: finished dest!: new_events_append)
  qed
qed

lemma build_if_changed_start_cases:
  assumes "build_if_changed_start E f s = (r, s')"
  obtains (raised) ys x zs vs e where
      "identifiers E s = ys @ x # zs" "length vs = length ys"
      "new_events s s' = returned (\<lambda>x. Call f x (app_dir (self s))) ys vs @ [(Call f x (app_dir (self s)), Inl e)]"
      "r = Inl e"
  | (no_build) vs where
      "length vs = length (identifiers E s)"
      "\<not> (any_py vs \<and> should_build (self s))"
      "new_events s s' = returned (\<lambda>x. Call f x (app_dir (self s))) (identifiers E s) vs"
      "r = Inr ()"
  | (built) vs out where
      "length vs = length (identifiers E s)"
      "any_py vs" "should_build (self s)"
      "new_events s s' = returned (\<lambda>x. Call f x (app_dir (self s))) (identifiers E s) vs
          @ [(build (app_dir (self s)) (should_clean (self s)), out)]"
      "r = map_sum id (\<lambda>v. ()) out"
proof -
  let ?s0 = "default_extra_args E s"
  obtain r1 s1 where 1: "list_comp (\<lambda>arg. invoke E (Call f arg (app_dir (self s)))) (identifiers E s) ?s0 = (r1, s1)"
    by force
  note l = list_comp_invoke[OF 1, unfolded default_extra_args_simps]
  show thesis
  proof (cases r1)
    case (Inl e)
    with assms 1 have "r = Inl e" "s' = s1" by (auto simp: build_if_changed_start_def default_extra_args_simps Let_def)
    with l Inl show thesis by (auto intro!: raised dest!: new_events_append)
  next
    case (Inr vs)
    show thesis
    proof (cases "any_py vs \<and> should_build (self s)")
      case False
      with Inr assms 1 l have "r = Inr ()" "s' = s1"
        by (auto simp: build_if_changed_start_def default_extra_args_simps Let_def)
      with l Inr False show thesis by (auto intro!: no_build dest!: new_events_append)
    next
      case True
      obtain out s2 where 2: "invoke E (build (app_dir (self s)) (should_clean (self s))) s1 = (out, s2)"
        by force
      note i = invoke_self[OF 2]
      from True Inr assms 1 2 l have "r = map_sum id (\<lambda>v. ()) out" "s' = s2"
        by (auto simp: build_if_changed_start_def default_extra_args_simps Let_def split: sum.splits)
      with l Inr True i show thesis by (auto intro!: built dest!: new_events_append)
    qed
  qed
qed

lemma rollback_start_cases:
  assumes "rollback_start E f g s = (r, s')"
  obtains (raised) ys x zs vs e where
      "identifiers E s = ys @ x # zs" "length vs = length ys"
      "new_events s s' = returned (\<lambda>x. Call f x (app_dir (self s))) ys vs @ [(Call f x (app_dir (self s)), Inl e)]"
      "r = Inl e"
  | (no_build) vs where
      "length vs = length (identifiers E s)"
      "\<not> should_build (self s)"
      "new_events s s' = returned (\<lambda>x. Call f x (app_dir (self s))) (identifiers E s) vs"
      "r = Inr ()"
  | (built) vs v where
      "length vs = length (identifiers E s)"
      "should_build (self s)"
      "new_events s s' = returned (\<lambda>x. Call f x (app_dir (self s))) (identifiers E s) vs
          @ [(build (app_dir (self s)) (should_clean (self s)), Inr v)]"
      "r = Inr ()"
  | (uncaught) vs e where
      "length vs = length (identifiers E s)"
      "should_build (self s)" "\<not> is_Exception e"
      "new_events s s' = returned (\<lambda>x. Call f x (app_dir (self s))) (identifiers E s) vs
          @ [(build (app_dir (self s)) (should_clean (self s)), Inl e)]"
      "r = Inl e"
  | (rolled_back) vs e us where
      "length vs = length (identifiers E s)" "length us = length (identifiers E s)"
      "should_build (self s)" "is_Exception e"
      "new_events s s' = returned (\<lambda>x. Call f x (app_dir (self s))) (identifiers E s) vs
          @ [(build (app_dir (self s)) (should_clean (self s)), Inl e)]
          @ returned (\<lambda>x. Call g x (app_dir (self s))) (identifiers E s) us"
      "r = Inl e"
  | (rollback_raised) vs e ys x zs us e' where
      "length vs = length (identifiers E s)"
      "identifiers E s = ys @ x # zs" "length us = length ys"
      "should_build (self s)" "is_Exception e"
      "new_events s s' = returned (\<lambda>x. Call f x (app_dir (self s))) (identifiers E s) vs
          @ [(build (app_dir (self s)) (should_clean (self s)), Inl e)]
          @ returned (\<lambda>x. Call g x (app_dir (self s))) ys us
          @ [(Call g x (app_dir (self s)), Inl e')]"
      "r = Inl e'"
proof -
  let ?s0 = "default_extra_args E s"
  obtain r1 s1 where 1: "list_comp (\<lambda>arg. invoke E (Call f arg (app_dir (self s)))) (identifiers E s) ?s0 = (r1, s1)"
    by force
  note l = list_comp_invoke[OF 1, unfolded default_extra_args_simps]
  show thesis
  proof (cases r1)
    case (Inl e)
    with assms 1 have "r = Inl e" "s' = s1" by (auto simp: rollback_start_def default_extra_args_simps Let_def)
    with l Inl show thesis by (auto intro!: raised dest!: new_events_append)
  next
    case (Inr vs)
    show thesis
    proof (cases "should_build (self s)")
      case False
      with Inr assms 1 l have "r = Inr ()" "s' = s1"
        by (auto simp: rollback_start_def default_extra_args_simps Let_def)
      with l Inr False show thesis by (auto intro!: no_build dest!: new_events_append)
    next
      case True
      obtain out s2 where 2: "invoke E (build (app_dir (self s)) (should_clean (self s))) s1 = (out, s2)"
        by force
      note i = invoke_self[OF 2]
      show thesis
      proof (cases out)
        case (Inr v)
        with True \<open>r1 = Inr vs\<close> assms 1 2 l have "r = Inr ()" "s' = s2"
          by (auto simp: rollback_start_def default_extra_args_simps Let_def)
        with l \<open>r1 = Inr vs\<close> Inr True i show thesis by (auto intro!: built dest!: new_events_append)
      next
        case (Inl e)
        show thesis
        proof (cases "is_Exception e")
          case False
          with Inl True \<open>r1 = Inr vs\<close> assms 1 2 l have "r = Inl e" "s' = s2"
            by (auto simp: rollback_start_def default_extra_args_simps Let_def)
          with l \<open>r1 = Inr vs\<close> Inl True False i show thesis
            by (auto intro!: uncaught dest!: new_events_append)
        next
          case exc: True
          obtain r3 s3 where 3: "for_loop (\<lambda>arg. invoke E (Call g arg (app_dir (self s)))) (identifiers E s) s2 = (r3, s3)"
            by force
          have self2: "self s2 = self ?s0" using i l by simp
          note fl = for_loop_invoke[OF 3]
          have tr2: "trace s2 = trace s @ returned (\<lambda>x. Call f x (app_dir (self s))) (identifiers E s) vs
              @ [(build (app_dir (self s)) (should_clean (self s)), Inl e)]"
            using i l \<open>r1 = Inr vs\<close> Inl by simp
          have len: "length vs = length (identifiers E s)" using l \<open>r1 = Inr vs\<close> by simp
          show thesis
          proof (cases r3)
            case (Inl e')
            with exc \<open>out = Inl e\<close> True \<open>r1 = Inr vs\<close> assms 1 2 3 self2 l have r: "r = Inl e'" "s' = s3"
              by (auto simp: rollback_start_def default_extra_args_simps Let_def)
            from fl Inl obtain ys x zs us where
              "identifiers E s = ys @ x # zs" "length us = length ys"
              "trace s3 = trace s2 @ returned (\<lambda>x. Call g x (app_dir (self s))) ys us @ [(Call g x (app_dir (self s)), Inl e')]"
              by auto
            with r tr2 len True exc show thesis
              by (intro rollback_raised[of vs ys x zs us e e']) (auto dest!: new_events_append)
          next
            case (Inr u)
            with exc \<open>out = Inl e\<close> True \<open>r1 = Inr vs\<close> assms 1 2 3 self2 l have r: "r = Inl e" "s' = s3"
              by (auto simp: rollback_start_def default_extra_args_simps Let_def)
            from fl Inr obtain us where
              "length us = length (identifiers E s)"
              "trace s3 = trace s2 @ returned (\<lambda>x. Call g x (app_dir (self s))) (identifiers E s) us"
              by auto
            with r tr2 len True exc show thesis
              by (intro rolled_back[of vs us e]) (auto dest!: new_events_append)
          qed
        qed
      qed
    qed
  qed
qed

lemma default_extra_args_cwd:
  "extra_args (self s) = [] \<Longrightarrow>
     default_extra_args E (s\<lparr>self := (self s)\<lparr>extra_args := [getcwd E (world s)]\<rparr>\<rparr>) = default_extra_args E s"
  by (simp add: default_extra_args_def)

lemma rollback_start_cwd:
  "extra_args (self s) = [] \<Longrightarrow>
     rollback_start E f g (s\<lparr>self := (self s)\<lparr>extra_args := [getcwd E (world s)]\<rparr>\<rparr>) = rollback_start E f g s"
  by (simp only: rollback_start_def default_extra_args_cwd)

lemma build_if_changed_start_cwd:
  "extra_args (self s) = [] \<Longrightarrow>
     build_if_changed_start E f (s\<lparr>self := (self s)\<lparr>extra_args := [getcwd E (world s)]\<rparr>\<rparr>) = build_if_changed_start E f s"
  by (simp only: build_if_changed_start_def default_extra_args_cwd)

lemma sorted_subcommands:
  "sorted_py (map fst subcommands) =
     [''disable'', ''enable'', ''install'', ''link'', ''list'', ''uninstall'', ''unlink'']"
  by (simp add: sorted_py_def subcommands_def)

subsection \<open>Evaluating the concrete environment\<close>

lemmas demo_defs =
  demo_perform_def demo_env_def demo_state_def default_extra_args_def invoke_def
  new_events_def calls_made_def identifiers_def Let_def

lemma demo_sel:
  "extra_args (self (demo_state args b)) = args"
  "app_dir (self (demo_state args b)) = ''/opt/lab''"
  "should_build (self (demo_state args b)) = b"
  "should_clean (self (demo_state args b)) = False"
  "world (demo_state args b) = 0"
  "trace (demo_state args b) = []"
  "getcwd demo_env w = ''/home/user/ext''"
  by (simp_all add: demo_state_def demo_env_def)

section \<open>The claims\<close>

text \<open>
  Claim C1. For install and link: when the build call raises an exception \<open>e\<close> that
  \<open>except Exception\<close> catches, and no rollback call raises, the calls of the invocation are
  exactly: the per-identifier call for every identifier in argument order, the build call,
  and then the rollback call (\<open>uninstall_extension\<close> for install, \<open>unlink_package\<close> for
  link) once for every identifier, in the same order; and the method raises \<open>e\<close> again.
  That the per-identifier calls returned is not assumed: the build call is only reached
  after all of them returned.
\<close>

theorem build_failure_rolls_back_every_identifier:
  assumes "(start, f, g) \<in> {(InstallLabExtensionApp_start, install_extension, uninstall_extension),
                             (LinkLabExtensionApp_start, link_package, unlink_package)}"
    and "start E s = (r, s')"
    and "(build d c, Inl e) \<in> set (new_events s s')"
    and "is_Exception e"
    and "\<forall>ev\<in>set (new_events s s'). is_call_of g (fst ev) \<longrightarrow> \<not> raised ev"
  shows "calls_made s s' =
           map (\<lambda>x. Call f x (app_dir (self s))) (identifiers E s)
           @ [build (app_dir (self s)) (should_clean (self s))]
           @ map (\<lambda>x. Call g x (app_dir (self s))) (identifiers E s)
         \<and> r = Inl e"
proof -
  from assms(1,2) have run: "rollback_start E f g s = (r, s')"
    by (auto simp: Install_shape Link_shape)
  from run show ?thesis
  proof (cases rule: rollback_start_cases)
    case (raised ys x zs vs e)
    with assms(3) show ?thesis by (auto dest: in_returned)
  next
    case (no_build vs)
    with assms(3) show ?thesis by (auto dest: in_returned)
  next
    case (built vs v)
    with assms(3) show ?thesis by (auto dest: in_returned)
  next
    case (uncaught vs e)
    with assms(3,4) show ?thesis by (auto dest: in_returned)
  next
    case (rolled_back vs e0 us)
    with assms(3) have "e0 = e" by (auto dest: in_returned)
    with rolled_back show ?thesis by (simp add: calls_made_def map_fst_returned)
  next
    case (rollback_raised vs e ys x zs us e')
    with assms(5) show ?thesis by auto
  qed
qed

text \<open>Installing \<open>extA\<close> and \<open>extB\<close> where the build fails.\<close>

theorem build_failure_rolls_back_every_identifier_witness:
  "(build ''/opt/lab'' False, Inl (Exception ''build failed''))
      \<in> set (new_events (demo_state [''extA'', ''extB''] True)
                (snd (InstallLabExtensionApp_start demo_env (demo_state [''extA'', ''extB''] True))))
   \<and> calls_made (demo_state [''extA'', ''extB''] True)
        (snd (InstallLabExtensionApp_start demo_env (demo_state [''extA'', ''extB''] True)))
      = [Call install_extension ''extA'' ''/opt/lab'', Call install_extension ''extB'' ''/opt/lab'',
         build ''/opt/lab'' False,
         Call uninstall_extension ''extA'' ''/opt/lab'', Call uninstall_extension ''extB'' ''/opt/lab'']
   \<and> fst (InstallLabExtensionApp_start demo_env (demo_state [''extA'', ''extB''] True))
      = Inl (Exception ''build failed'')"
proof -
  let ?s = "demo_state [''extA'', ''extB''] True"
  let ?run = "InstallLabExtensionApp_start demo_env ?s"
  have ev: "new_events ?s (snd ?run) =
      [(Call install_extension ''extA'' ''/opt/lab'', Inr PyNone),
       (Call install_extension ''extB'' ''/opt/lab'', Inr PyNone),
       (build ''/opt/lab'' False, Inl (Exception ''build failed'')),
       (Call uninstall_extension ''extA'' ''/opt/lab'', Inr (PyBool False)),
       (Call uninstall_extension ''extB'' ''/opt/lab'', Inr (PyBool False))]"
    by (simp add: InstallLabExtensionApp_start_def demo_defs)
  have h1: "(InstallLabExtensionApp_start, install_extension, uninstall_extension)
      \<in> {(InstallLabExtensionApp_start, install_extension, uninstall_extension),
          (LinkLabExtensionApp_start, link_package, unlink_package)}" by simp
  have h2: "?run = (fst ?run, snd ?run)" by simp
  have h3: "(build ''/opt/lab'' False, Inl (Exception ''build failed'')) \<in> set (new_events ?s (snd ?run))"
    by (simp add: ev)
  have h4: "is_Exception (Exception ''build failed'')" by simp
  have h5: "\<forall>ev\<in>set (new_events ?s (snd ?run)). is_call_of uninstall_extension (fst ev) \<longrightarrow> \<not> raised ev"
    by (simp add: ev)
  from build_failure_rolls_back_every_identifier[OF h1 h2 h3 h4 h5] h3 show ?thesis
    by (simp add: demo_sel identifiers_def)
qed

text \<open>
  Claim C2, as stated, fails: unlinking \<open>changed\<close> and then \<open>missing\<close> with the build
  enabled, the first call returns \<open>True\<close>, the second raises, and no build call is made.
\<close>

theorem build_iff_enabled_and_changed_counterexample:
  "should_build (self (demo_state [''changed'', ''missing''] True))
   \<and> (Call unlink_package ''changed'' ''/opt/lab'', Inr (PyBool True))
       \<in> set (new_events (demo_state [''changed'', ''missing''] True)
                 (snd (UnlinkLabExtensionApp_start demo_env (demo_state [''changed'', ''missing''] True))))
   \<and> \<not> list_ex is_build
         (calls_made (demo_state [''changed'', ''missing''] True)
            (snd (UnlinkLabExtensionApp_start demo_env (demo_state [''changed'', ''missing''] True))))"
  by (simp add: UnlinkLabExtensionApp_start_def demo_defs)

text \<open>
  Claim C2, as amended. For unlink and uninstall, for every identifier list and every
  setting of the flags: the build call is made if and only if \<open>should_build\<close> is true, no
  per-identifier call raised, and at least one per-identifier call returned a true value.
\<close>

theorem build_iff_enabled_changed_and_no_raise:
  assumes "(start, f) \<in> {(UnlinkLabExtensionApp_start, unlink_package),
                          (UninstallLabExtensionApp_start, uninstall_extension)}"
    and "start E s = (r, s')"
  shows "list_ex is_build (calls_made s s') \<longleftrightarrow>
           should_build (self s)
           \<and> (\<forall>ev\<in>set (new_events s s'). is_call_of f (fst ev) \<longrightarrow> \<not> raised ev)
           \<and> (\<exists>ev\<in>set (new_events s s'). is_call_of f (fst ev) \<and> reported_change ev)"
proof -
  from assms have run: "build_if_changed_start E f s = (r, s')"
    by (auto simp: Unlink_shape Uninstall_shape)
  from run show ?thesis
  proof (cases rule: build_if_changed_start_cases)
    case (raised ys x zs vs e)
    then show ?thesis
      by (auto simp: calls_made_def list_ex_iff dest: returned_not_build)
  next
    case (no_build vs)
    have "\<And>ev. ev \<in> set (new_events s s') \<Longrightarrow> \<not> is_build (fst ev) \<and> is_call_of f (fst ev) \<and> \<not> raised ev"
      using no_build(3) by (auto dest: in_returned)
    moreover have "(\<exists>ev\<in>set (new_events s s'). reported_change ev) \<longleftrightarrow> any_py vs"
      using no_build(1,3) by (simp add: returned_change)
    ultimately show ?thesis using no_build(2)
      by (auto simp: calls_made_def list_ex_iff)
  next
    case (built vs out)
    have "\<exists>ev\<in>set (returned (\<lambda>x. Call f x (app_dir (self s))) (identifiers E s) vs). reported_change ev"
      using built(1,2) by (simp add: returned_change)
    then obtain ev where ev: "ev \<in> set (returned (\<lambda>x. Call f x (app_dir (self s))) (identifiers E s) vs)"
      "reported_change ev" by blast
    then have "ev \<in> set (new_events s s')" "is_call_of f (fst ev)" "reported_change ev"
      using built(4) by (auto dest: in_returned)
    moreover have "\<And>ev. ev \<in> set (new_events s s') \<Longrightarrow> is_call_of f (fst ev) \<Longrightarrow> \<not> raised ev"
      using built(4) by (auto dest: in_returned)
    moreover have "list_ex is_build (calls_made s s')"
      using built(4) by (simp add: calls_made_def list_ex_iff)
    ultimately show ?thesis using built(3) by blast
  qed
qed

text \<open>Unlinking where one package reports a change, and where none does.\<close>

theorem build_iff_enabled_changed_and_no_raise_witness:
  "list_ex is_build
     (calls_made (demo_state [''changed'', ''extA''] True)
        (snd (UnlinkLabExtensionApp_start demo_env (demo_state [''changed'', ''extA''] True))))
   \<and> \<not> list_ex is_build
     (calls_made (demo_state [''extA''] True)
        (snd (UnlinkLabExtensionApp_start demo_env (demo_state [''extA''] True))))"
proof -
  let ?s = "demo_state [''changed'', ''extA''] True"
  let ?run = "UnlinkLabExtensionApp_start demo_env ?s"
  let ?t = "demo_state [''extA''] True"
  let ?run2 = "UnlinkLabExtensionApp_start demo_env ?t"
  have ev: "new_events ?s (snd ?run) =
      [(Call unlink_package ''changed'' ''/opt/lab'', Inr (PyBool True)),
       (Call unlink_package ''extA'' ''/opt/lab'', Inr (PyBool False)),
       (build ''/opt/lab'' False, Inl (Exception ''build failed''))]"
    by (simp add: UnlinkLabExtensionApp_start_def demo_defs)
  have ev2: "new_events ?t (snd ?run2) =
      [(Call unlink_package ''extA'' ''/opt/lab'', Inr (PyBool False))]"
    by (simp add: UnlinkLabExtensionApp_start_def demo_defs)
  have h1: "(UnlinkLabExtensionApp_start, unlink_package)
      \<in> {(UnlinkLabExtensionApp_start, unlink_package),
          (UninstallLabExtensionApp_start, uninstall_extension)}" by simp
  have h2: "?run = (fst ?run, snd ?run)" by simp
  have h2': "?run2 = (fst ?run2, snd ?run2)" by simp
  from build_iff_enabled_changed_and_no_raise[OF h1 h2] build_iff_enabled_changed_and_no_raise[OF h1 h2'] show ?thesis
    by (simp add: ev ev2 demo_sel)
qed

text \<open>
  Claim C3. For unlink, uninstall, enable and disable: when a per-identifier call raises
  \<open>e\<close>, the method raises \<open>e\<close>, that call is the last call of the invocation, so no
  later identifier is attempted, and no build call is made. The calls made are those for the
  identifiers up to and including the failing one.
\<close>

theorem first_failure_propagates_without_build:
  assumes "(start, f, ids) \<in> {(UnlinkLabExtensionApp_start, unlink_package, identifiers E s),
                               (UninstallLabExtensionApp_start, uninstall_extension, identifiers E s),
                               (EnableLabExtensionsApp_start, enable_extension, extra_args (self s)),
                               (DisableLabExtensionsApp_start, disable_extension, extra_args (self s))}"
    and "start E s = (r, s')"
    and "new_events s s' = pre @ (Call f x d, Inl e) # post"
  shows "r = Inl e \<and> post = [] \<and> \<not> list_ex is_build (calls_made s s')
         \<and> length pre < length ids
         \<and> calls_made s s' = map (\<lambda>x. Call f x (app_dir (self s))) (take (Suc (length pre)) ids)"
proof -
  let ?F = "\<lambda>x. Call f x (app_dir (self s))"
  have key: ?thesis
    if "ids = ys @ y # zs" "length vs = length ys"
      "new_events s s' = returned ?F ys vs @ [(?F y, Inl e0)]" "r = Inl e0"
    for ys y zs vs e0
  proof -
    have "(Call f x d, Inl e) \<in> set (returned ?F ys vs @ [(?F y, Inl e0)])"
      using assms(3) that(3) by (metis in_set_conv_decomp)
    then have ee: "e0 = e" by (auto dest: in_returned)
    have notin: "(Call f x d, Inl e) \<notin> set (returned ?F ys vs)"
      by (auto dest: in_returned)
    have "pre @ (Call f x d, Inl e) # post = returned ?F ys vs @ [(?F y, Inl e0)]"
      using assms(3) that(3) by simp
    from split_at_last[OF this notin] have pp: "pre = returned ?F ys vs \<and> post = []"
      by simp
    then have lp: "length pre = length ys" using that(2) by (simp add: returned_def)
    have "calls_made s s' = map ?F (ys @ [y])"
      using that(2,3) by (simp add: calls_made_def map_fst_returned)
    moreover have "take (Suc (length pre)) ids = ys @ [y]" using lp that(1) by simp
    moreover have "\<not> list_ex is_build (map ?F (ys @ [y]))" by (simp add: list_ex_iff)
    ultimately show ?thesis using ee pp lp that(1,4) by simp
  qed
  from assms(1) consider
      (if_changed) "start E s = build_if_changed_start E f s" "ids = identifiers E s"
    | (plain) "start E s = plain_start E f s" "ids = extra_args (self s)"
    by (auto simp: Unlink_shape Uninstall_shape Enable_shape Disable_shape)
  then show ?thesis
  proof cases
    case if_changed
    with assms(2) have "build_if_changed_start E f s = (r, s')" by simp
    then show ?thesis
    proof (cases rule: build_if_changed_start_cases)
      case (raised ys x zs vs e)
      with if_changed show ?thesis by (intro key) auto
    next
      case (no_build vs)
      with assms(3) have "(Call f x d, Inl e) \<in> set (returned ?F (identifiers E s) vs)"
        by (metis in_set_conv_decomp)
      then show ?thesis by (auto dest: in_returned)
    next
      case (built vs out)
      with assms(3) have "(Call f x d, Inl e) \<in> set (returned ?F (identifiers E s) vs
          @ [(build (app_dir (self s)) (should_clean (self s)), out)])"
        by (metis in_set_conv_decomp)
      then show ?thesis by (auto dest: in_returned)
    qed
  next
    case plain
    with assms(2) have "plain_start E f s = (r, s')" by simp
    then show ?thesis
    proof (cases rule: plain_start_cases)
      case (raised ys x zs vs e)
      with plain show ?thesis by (intro key) auto
    next
      case (finished vs)
      with assms(3) have "(Call f x d, Inl e) \<in> set (returned ?F (extra_args (self s)) vs)"
        by (metis in_set_conv_decomp)
      then show ?thesis by (auto dest: in_returned)
    qed
  qed
qed

text \<open>Disabling three extensions where the second is unknown.\<close>

theorem first_failure_propagates_without_build_witness:
  "new_events (demo_state [''extA'', ''missing'', ''extB''] False)
      (snd (DisableLabExtensionsApp_start demo_env (demo_state [''extA'', ''missing'', ''extB''] False)))
     = [(Call disable_extension ''extA'' ''/opt/lab'', Inr (PyBool False))]
       @ (Call disable_extension ''missing'' ''/opt/lab'', Inl (Exception ''not found'')) # []
   \<and> fst (DisableLabExtensionsApp_start demo_env (demo_state [''extA'', ''missing'', ''extB''] False))
     = Inl (Exception ''not found'')
   \<and> calls_made (demo_state [''extA'', ''missing'', ''extB''] False)
      (snd (DisableLabExtensionsApp_start demo_env (demo_state [''extA'', ''missing'', ''extB''] False)))
     = [Call disable_extension ''extA'' ''/opt/lab'', Call disable_extension ''missing'' ''/opt/lab'']"
proof -
  let ?s = "demo_state [''extA'', ''missing'', ''extB''] False"
  let ?run = "DisableLabExtensionsApp_start demo_env ?s"
  have ev: "new_events ?s (snd ?run) =
      [(Call disable_extension ''extA'' ''/opt/lab'', Inr (PyBool False))]
      @ (Call disable_extension ''missing'' ''/opt/lab'', Inl (Exception ''not found'')) # []"
    by (simp add: DisableLabExtensionsApp_start_def demo_defs)
  have h1: "(DisableLabExtensionsApp_start, disable_extension, extra_args (self ?s))
      \<in> {(UnlinkLabExtensionApp_start, unlink_package, identifiers demo_env ?s),
          (UninstallLabExtensionApp_start, uninstall_extension, identifiers demo_env ?s),
          (EnableLabExtensionsApp_start, enable_extension, extra_args (self ?s)),
          (DisableLabExtensionsApp_start, disable_extension, extra_args (self ?s))}" by simp
  have h2: "?run = (fst ?run, snd ?run)" by simp
  from first_failure_propagates_without_build[OF h1 h2 ev] ev show ?thesis
    by (simp add: demo_sel)
qed

text \<open>
  Claim C4. For install and link: when a rollback call raises \<open>e'\<close>, the method raises
  \<open>e'\<close> itself, in place of the build error that started the rollback, and that call is
  the last call of the invocation: the identifiers after the failing one are not rolled
  back.
\<close>

theorem rollback_failure_replaces_build_error:
  assumes "(start, f, g) \<in> {(InstallLabExtensionApp_start, install_extension, uninstall_extension),
                             (LinkLabExtensionApp_start, link_package, unlink_package)}"
    and "start E s = (r, s')"
    and "new_events s s' = pre @ (Call g x d, Inl e') # post"
  shows "r = Inl e' \<and> post = []
         \<and> (\<exists>e. is_Exception e \<and> (build (app_dir (self s)) (should_clean (self s)), Inl e) \<in> set pre)
         \<and> (\<exists>k<length (identifiers E s). x = identifiers E s ! k \<and>
               calls_made s s' =
                 map (\<lambda>x. Call f x (app_dir (self s))) (identifiers E s)
                 @ [build (app_dir (self s)) (should_clean (self s))]
                 @ map (\<lambda>x. Call g x (app_dir (self s))) (take (Suc k) (identifiers E s)))"
proof -
  let ?F = "\<lambda>x. Call f x (app_dir (self s))"
  let ?G = "\<lambda>x. Call g x (app_dir (self s))"
  let ?b = "build (app_dir (self s)) (should_clean (self s))"
  let ?ids = "identifiers E s"
  from assms(1,2) have run: "rollback_start E f g s = (r, s')" and fg: "g \<noteq> f"
    by (auto simp: Install_shape Link_shape)
  have mem: "(Call g x d, Inl e') \<in> set (new_events s s')"
    using assms(3) by simp
  from run show ?thesis
  proof (cases rule: rollback_start_cases)
    case (raised ys x zs vs e)
    with mem fg show ?thesis by (auto dest: in_returned)
  next
    case (no_build vs)
    with mem show ?thesis by (auto dest: in_returned)
  next
    case (built vs v)
    with mem show ?thesis by (auto dest: in_returned)
  next
    case (uncaught vs e)
    with mem show ?thesis by (auto dest: in_returned)
  next
    case (rolled_back vs e us)
    with mem show ?thesis by (auto dest: in_returned)
  next
    case (rollback_raised vs e ys y zs us e0)
    let ?Y = "returned ?F ?ids vs @ [(?b, Inl e)] @ returned ?G ys us"
    have notin: "(Call g x d, Inl e') \<notin> set ?Y"
      by (auto dest: in_returned)
    have "pre @ (Call g x d, Inl e') # post = ?Y @ [(?G y, Inl e0)]"
      using assms(3) rollback_raised(6) by simp
    from split_at_last[OF this notin]
    have pp: "pre = ?Y" "post = []" "x = y" "e' = e0" by simp_all
    have calls: "calls_made s s' = map ?F ?ids @ [?b] @ map ?G (ys @ [y])"
      using rollback_raised(1,3,6) by (simp add: calls_made_def map_fst_returned)
    have k: "length ys < length ?ids" "?ids ! length ys = y" "take (Suc (length ys)) ?ids = ys @ [y]"
      using rollback_raised(2) by simp_all
    have "\<exists>k<length ?ids. x = ?ids ! k \<and> calls_made s s' = map ?F ?ids @ [?b] @ map ?G (take (Suc k) ?ids)"
      using k calls pp(3) by (intro exI[of _ "length ys"]) simp
    moreover have "is_Exception e \<and> (?b, Inl e) \<in> set pre"
      using rollback_raised(5) pp(1) by simp
    ultimately show ?thesis using pp(2,4) rollback_raised(7) by blast
  qed
qed

text \<open>Installing three extensions where the build fails and the second rollback call raises.\<close>

theorem rollback_failure_replaces_build_error_witness:
  "new_events (demo_state [''extA'', ''missing'', ''extB''] True)
      (snd (InstallLabExtensionApp_start demo_env (demo_state [''extA'', ''missing'', ''extB''] True)))
     = [(Call install_extension ''extA'' ''/opt/lab'', Inr PyNone),
        (Call install_extension ''missing'' ''/opt/lab'', Inr PyNone),
        (Call install_extension ''extB'' ''/opt/lab'', Inr PyNone),
        (build ''/opt/lab'' False, Inl (Exception ''build failed'')),
        (Call uninstall_extension ''extA'' ''/opt/lab'', Inr (PyBool False))]
       @ (Call uninstall_extension ''missing'' ''/opt/lab'', Inl (Exception ''not found'')) # []
   \<and> fst (InstallLabExtensionApp_start demo_env (demo_state [''extA'', ''missing'', ''extB''] True))
     = Inl (Exception ''not found'')"
proof -
  let ?s = "demo_state [''extA'', ''missing'', ''extB''] True"
  let ?run = "InstallLabExtensionApp_start demo_env ?s"
  have ev: "new_events ?s (snd ?run) =
      [(Call install_extension ''extA'' ''/opt/lab'', Inr PyNone),
       (Call install_extension ''missing'' ''/opt/lab'', Inr PyNone),
       (Call install_extension ''extB'' ''/opt/lab'', Inr PyNone),
       (build ''/opt/lab'' False, Inl (Exception ''build failed'')),
       (Call uninstall_extension ''extA'' ''/opt/lab'', Inr (PyBool False))]
      @ (Call uninstall_extension ''missing'' ''/opt/lab'', Inl (Exception ''not found'')) # []"
    by (simp add: InstallLabExtensionApp_start_def demo_defs)
  have h1: "(InstallLabExtensionApp_start, install_extension, uninstall_extension)
      \<in> {(InstallLabExtensionApp_start, install_extension, uninstall_extension),
          (LinkLabExtensionApp_start, link_package, unlink_package)}" by simp
  have h2: "?run = (fst ?run, snd ?run)" by simp
  from rollback_failure_replaces_build_error[OF h1 h2 ev] ev show ?thesis by simp
qed

text \<open>
  Claim C5. For install, link, unlink and uninstall: when \<open>should_build\<close> is false, no
  build call is made, whatever the identifiers are and whatever the collaborators do.
\<close>

theorem no_build_suppresses_build:
  assumes "start \<in> {InstallLabExtensionApp_start, LinkLabExtensionApp_start,
                     UnlinkLabExtensionApp_start, UninstallLabExtensionApp_start}"
    and "\<not> should_build (self s)"
  shows "\<not> list_ex is_build (calls_made s (snd (start E s)))"
proof -
  obtain r s' where run: "start E s = (r, s')" by force
  from assms(1) consider
      (rollback) f g where "start E s = rollback_start E f g s"
    | (if_changed) f where "start E s = build_if_changed_start E f s"
    by (auto simp: Install_shape Link_shape Unlink_shape Uninstall_shape)
  then have "\<not> list_ex is_build (calls_made s s')"
  proof cases
    case rollback
    with run have "rollback_start E f g s = (r, s')" by simp
    then show ?thesis using assms(2)
      by (cases rule: rollback_start_cases)
         (auto simp: calls_made_def list_ex_iff dest: in_returned)
  next
    case if_changed
    with run have "build_if_changed_start E f s = (r, s')" by simp
    then show ?thesis using assms(2)
      by (cases rule: build_if_changed_start_cases)
         (auto simp: calls_made_def list_ex_iff dest: in_returned)
  qed
  with run show ?thesis by simp
qed

text \<open>Uninstalling with \<open>should_build\<close> false, although the call reports a change.\<close>

theorem no_build_suppresses_build_witness:
  "\<not> should_build (self (demo_state [''changed''] False))
   \<and> \<not> list_ex is_build
         (calls_made (demo_state [''changed''] False)
            (snd (UninstallLabExtensionApp_start demo_env (demo_state [''changed''] False))))"
proof -
  have h1: "UninstallLabExtensionApp_start
      \<in> {InstallLabExtensionApp_start, LinkLabExtensionApp_start,
          UnlinkLabExtensionApp_start, UninstallLabExtensionApp_start}" by simp
  have h2: "\<not> should_build (self (demo_state [''changed''] False))"
    by (simp add: demo_sel)
  from no_build_suppresses_build[OF h1 h2, of demo_env] h2 show ?thesis by simp
qed

text \<open>
  Claim C6. For install, link, unlink and uninstall: with an empty identifier list the
  method behaves exactly as with the list that holds the current working directory alone,
  and the per-identifier collaborator is called exactly once, on that directory.
\<close>

theorem empty_arguments_default_to_cwd:
  assumes "(start, f) \<in> {(InstallLabExtensionApp_start, install_extension),
                          (LinkLabExtensionApp_start, link_package),
                          (UnlinkLabExtensionApp_start, unlink_package),
                          (UninstallLabExtensionApp_start, uninstall_extension)}"
    and "extra_args (self s) = []"
  shows "start E s = start E (s\<lparr>self := (self s)\<lparr>extra_args := [getcwd E (world s)]\<rparr>\<rparr>)
         \<and> filter (is_call_of f) (calls_made s (snd (start E s)))
             = [Call f (getcwd E (world s)) (app_dir (self s))]"
proof -
  let ?F = "\<lambda>x. Call f x (app_dir (self s))"
  obtain r s' where run: "start E s = (r, s')" by force
  have ids: "identifiers E s = [getcwd E (world s)]"
    using assms(2) by (simp add: identifiers_def)
  from assms(1) consider
      (rollback) g where "start = (\<lambda>E. rollback_start E f g)" "g \<noteq> f"
    | (if_changed) "start = (\<lambda>E. build_if_changed_start E f)"
    by (auto simp: Install_shape Link_shape Unlink_shape Uninstall_shape fun_eq_iff)
  then have "start E s = start E (s\<lparr>self := (self s)\<lparr>extra_args := [getcwd E (world s)]\<rparr>\<rparr>)
      \<and> filter (is_call_of f) (calls_made s s') = [?F (getcwd E (world s))]"
  proof cases
    case rollback
    with run have "rollback_start E f g s = (r, s')" by simp
    then have "filter (is_call_of f) (calls_made s s') = [?F (getcwd E (world s))]"
    proof (cases rule: rollback_start_cases)
      case (raised ys x zs vs e)
      with ids have "ys = []" "x = getcwd E (world s)" by (auto simp: append_eq_Cons_conv)
      with raised show ?thesis by (simp add: calls_made_def returned_def)
    next
      case (rollback_raised vs e ys x zs us e')
      have "calls_made s s' = map ?F (identifiers E s)
          @ [build (app_dir (self s)) (should_clean (self s))]
          @ map (\<lambda>x. Call g x (app_dir (self s))) (ys @ [x])"
        using rollback_raised(1,3,6) by (simp add: calls_made_def map_fst_returned)
      then show ?thesis using rollback(2)
        by (simp add: ids filter_calls_other)
    qed (simp_all add: calls_made_def map_fst_returned ids rollback(2))
    then show ?thesis using rollback(1) assms(2) by (simp add: rollback_start_cwd)
  next
    case if_changed
    with run have "build_if_changed_start E f s = (r, s')" by simp
    then have "filter (is_call_of f) (calls_made s s') = [?F (getcwd E (world s))]"
    proof (cases rule: build_if_changed_start_cases)
      case (raised ys x zs vs e)
      with ids have "ys = []" "x = getcwd E (world s)" by (auto simp: append_eq_Cons_conv)
      with raised show ?thesis by (simp add: calls_made_def returned_def)
    qed (simp_all add: calls_made_def map_fst_returned ids)
    then show ?thesis using if_changed assms(2) by (simp add: build_if_changed_start_cwd)
  qed
  with run show ?thesis by simp
qed

text \<open>Linking with no arguments.\<close>

theorem empty_arguments_default_to_cwd_witness:
  "extra_args (self (demo_state [] True)) = []
   \<and> LinkLabExtensionApp_start demo_env (demo_state [] True)
     = LinkLabExtensionApp_start demo_env (demo_state [''/home/user/ext''] True)
   \<and> filter (is_call_of link_package)
       (calls_made (demo_state [] True) (snd (LinkLabExtensionApp_start demo_env (demo_state [] True))))
     = [Call link_package ''/home/user/ext'' ''/opt/lab'']"
proof -
  have h1: "(LinkLabExtensionApp_start, link_package)
      \<in> {(InstallLabExtensionApp_start, install_extension),
          (LinkLabExtensionApp_start, link_package),
          (UnlinkLabExtensionApp_start, unlink_package),
          (UninstallLabExtensionApp_start, uninstall_extension)}" by simp
  have h2: "extra_args (self (demo_state [] True)) = []"
    by (simp add: demo_sel)
  have upd: "(demo_state [] True)\<lparr>self := (self (demo_state [] True))
          \<lparr>extra_args := [getcwd demo_env (world (demo_state [] True))]\<rparr>\<rparr>
        = demo_state [''/home/user/ext''] True"
    by (simp add: demo_state_def demo_env_def)
  note r = empty_arguments_default_to_cwd[OF h1 h2, of demo_env, unfolded upd, unfolded demo_sel]
  from r[THEN conjunct1] r[THEN conjunct2] h2 show ?thesis by blast
qed

text \<open>
  Claim C7. Enable and disable make no build call, for every identifier list, every value
  of \<open>should_build\<close> and \<open>should_clean\<close>, and every behaviour of the collaborators.
\<close>

theorem enable_disable_never_build:
  "\<not> list_ex is_build (calls_made s (snd (EnableLabExtensionsApp_start E s)))
   \<and> \<not> list_ex is_build (calls_made s (snd (DisableLabExtensionsApp_start E s)))"
proof -
  have "\<not> list_ex is_build (calls_made s (snd (plain_start E f s)))" for f
  proof -
    obtain r s' where run: "plain_start E f s = (r, s')" by force
    then have "\<not> list_ex is_build (calls_made s s')"
      by (cases rule: plain_start_cases)
         (auto simp: calls_made_def list_ex_iff dest: in_returned)
    with run show ?thesis by simp
  qed
  then show ?thesis by (simp add: Enable_shape Disable_shape)
qed

text \<open>Enabling and disabling with \<open>should_build\<close> true.\<close>

theorem enable_disable_never_build_witness:
  "\<not> list_ex is_build
       (calls_made (demo_state [''extA''] True)
          (snd (EnableLabExtensionsApp_start demo_env (demo_state [''extA''] True))))
   \<and> \<not> list_ex is_build
       (calls_made (demo_state [''extA''] True)
          (snd (DisableLabExtensionsApp_start demo_env (demo_state [''extA''] True))))"
  by (rule enable_disable_never_build)

text \<open>
  Claim C8. When the inherited \<open>start\<close> returns, which is what it does when no
  subcommand was run, \<open>LabExtensionApp.start\<close> raises \<open>SystemExit\<close> with a message: the
  exit status is not zero, and the message lists the seven subcommand names, sorted.
\<close>

theorem no_subcommand_exits_with_usage:
  assumes "super_start s = (Inr (), s1)"
  shows "\<exists>a. LabExtensionApp_start super_start s = (Inl (SystemExit a), s1)
           \<and> exit_status a \<noteq> 0
           \<and> exit_message a =
               ''Please supply at least one subcommand: disable, enable, install, link, list, uninstall, unlink''
           \<and> exit_message a =
               ''Please supply at least one subcommand: '' @ join '', '' (sorted_py (map fst subcommands))
           \<and> set (sorted_py (map fst subcommands)) = set (map fst subcommands)
           \<and> length (map fst subcommands) = 7 \<and> distinct (map fst subcommands)"
proof -
  have "set (sorted_py (map fst subcommands)) = set (map fst subcommands)"
    by (simp add: sorted_py_def)
  moreover have "length (map fst subcommands) = 7 \<and> distinct (map fst subcommands)"
    by (simp add: subcommands_def)
  ultimately show ?thesis using assms
    by (simp add: LabExtensionApp_start_def sorted_subcommands)
qed

text \<open>An inherited \<open>start\<close> that returns at once.\<close>

theorem no_subcommand_exits_with_usage_witness:
  "\<exists>a. LabExtensionApp_start (\<lambda>s. (Inr (), s)) (demo_state [] False)
          = (Inl (SystemExit a), demo_state [] False)
      \<and> exit_status a \<noteq> 0
      \<and> exit_message a =
         ''Please supply at least one subcommand: disable, enable, install, link, list, uninstall, unlink''"
proof -
  have h: "(\<lambda>s. (Inr (), s)) (demo_state [] False) = (Inr (), demo_state [] False)" by simp
  from no_subcommand_exits_with_usage[of "\<lambda>s. (Inr (), s)", OF h] show ?thesis by blast
qed

text \<open>
  Claim C9. For unlink and uninstall: when no per-identifier call raises, the call is made
  for every identifier, in argument order, also after one that returned a true value; only
  after all of them comes the build call, if there is one.
\<close>

theorem any_changed_calls_every_identifier:
  assumes "(start, f) \<in> {(UnlinkLabExtensionApp_start, unlink_package),
                          (UninstallLabExtensionApp_start, uninstall_extension)}"
    and "start E s = (r, s')"
    and "\<forall>ev\<in>set (new_events s s'). is_call_of f (fst ev) \<longrightarrow> \<not> raised ev"
  shows "take (length (identifiers E s)) (calls_made s s')
           = map (\<lambda>x. Call f x (app_dir (self s))) (identifiers E s)
         \<and> drop (length (identifiers E s)) (calls_made s s')
           = (if should_build (self s) \<and> (\<exists>ev\<in>set (new_events s s'). reported_change ev)
              then [build (app_dir (self s)) (should_clean (self s))] else [])"
proof -
  let ?F = "\<lambda>x. Call f x (app_dir (self s))"
  from assms(1,2) have run: "build_if_changed_start E f s = (r, s')"
    by (auto simp: Unlink_shape Uninstall_shape)
  from run show ?thesis
  proof (cases rule: build_if_changed_start_cases)
    case (raised ys x zs vs e)
    with assms(3) show ?thesis by auto
  next
    case (no_build vs)
    have "(\<exists>ev\<in>set (new_events s s'). reported_change ev) \<longleftrightarrow> any_py vs"
      using no_build(1,3) by (simp add: returned_change)
    with no_build show ?thesis by (auto simp: calls_made_def map_fst_returned)
  next
    case (built vs out)
    have "\<exists>ev\<in>set (returned ?F (identifiers E s) vs). reported_change ev"
      using built(1,2) by (simp add: returned_change)
    then have "\<exists>ev\<in>set (new_events s s'). reported_change ev"
      using built(4) by auto
    with built show ?thesis by (simp add: calls_made_def map_fst_returned)
  qed
qed

text \<open>Uninstalling two extensions where the first reports a change.\<close>

theorem any_changed_calls_every_identifier_witness:
  "calls_made (demo_state [''changed'', ''extA''] True)
        (snd (UninstallLabExtensionApp_start demo_env (demo_state [''changed'', ''extA''] True)))
     = [Call uninstall_extension ''changed'' ''/opt/lab'', Call uninstall_extension ''extA'' ''/opt/lab'',
        build ''/opt/lab'' False]"
proof -
  let ?s = "demo_state [''changed'', ''extA''] True"
  let ?run = "UninstallLabExtensionApp_start demo_env ?s"
  have ev: "new_events ?s (snd ?run) =
      [(Call uninstall_extension ''changed'' ''/opt/lab'', Inr (PyBool True)),
       (Call uninstall_extension ''extA'' ''/opt/lab'', Inr (PyBool False)),
       (build ''/opt/lab'' False, Inl (Exception ''build failed''))]"
    by (simp add: UninstallLabExtensionApp_start_def demo_defs)
  have h1: "(UninstallLabExtensionApp_start, uninstall_extension)
      \<in> {(UnlinkLabExtensionApp_start, unlink_package),
          (UninstallLabExtensionApp_start, uninstall_extension)}" by simp
  have h2: "?run = (fst ?run, snd ?run)" by simp
  have h3: "\<forall>ev\<in>set (new_events ?s (snd ?run)). is_call_of uninstall_extension (fst ev) \<longrightarrow> \<not> raised ev"
    by (simp add: ev)
  from any_changed_calls_every_identifier[OF h1 h2 h3] have
    t: "take (Suc (Suc 0)) (calls_made ?s (snd ?run)) =
          [Call uninstall_extension ''changed'' ''/opt/lab'', Call uninstall_extension ''extA'' ''/opt/lab'']"
    and d: "drop (Suc (Suc 0)) (calls_made ?s (snd ?run)) = [build ''/opt/lab'' False]"
    by (simp_all add: ev demo_sel identifiers_def)
  have "calls_made ?s (snd ?run) =
      take (Suc (Suc 0)) (calls_made ?s (snd ?run)) @ drop (Suc (Suc 0)) (calls_made ?s (snd ?run))"
    by (simp only: append_take_drop_id)
  also have "\<dots> = [Call uninstall_extension ''changed'' ''/opt/lab'',
      Call uninstall_extension ''extA'' ''/opt/lab''] @ [build ''/opt/lab'' False]"
    by (simp only: t d)
  finally show ?thesis by simp
qed

text \<open>
  Claim C10. Enable and disable with an empty identifier list make no call and change
  nothing: the list is not replaced by the current working directory.
\<close>

theorem enable_disable_empty_is_noop:
  assumes "extra_args (self s) = []"
  shows "EnableLabExtensionsApp_start E s = (Inr (), s)
         \<and> DisableLabExtensionsApp_start E s = (Inr (), s)"
  using assms
  by (simp add: EnableLabExtensionsApp_start_def DisableLabExtensionsApp_start_def)

text \<open>Enabling and disabling with no arguments.\<close>

theorem enable_disable_empty_is_noop_witness:
  "extra_args (self (demo_state [] True)) = []
   \<and> EnableLabExtensionsApp_start demo_env (demo_state [] True) = (Inr (), demo_state [] True)
   \<and> DisableLabExtensionsApp_start demo_env (demo_state [] True) = (Inr (), demo_state [] True)"
proof -
  have h: "extra_args (self (demo_state [] True)) = []" by (simp add: demo_sel)
  from enable_disable_empty_is_noop[OF h, of demo_env] h show ?thesis by simp
qed

end
